theory Spec2Isabelle
  imports Complex_Main "HOL-Library.AList" "HOL-Library.Sublist"
begin

section \<open>The animal classifier of immich\_ml, embedded\<close>

text \<open>
  Source: \<^verbatim>\<open>machine-learning/immich_ml/models/animal_recognition/classification.py\<close>.

  The embedding follows \<^verbatim>\<open>AnimalClassifier.predict\<close> line by line. Three conventions:
  \<^item> numpy's float32 values and Python's floats are idealised as \<^typ>\<open>real\<close>: rounding,
    overflow, infinities and NaN are not modelled;
  \<^item> strings are byte lists and \<^verbatim>\<open>str.lower\<close> is modelled on ASCII letters (the labels
    and every keyword of the table are ASCII);
  \<^item> what the method obtains from other modules (the image helpers, the loaded network,
    \<^verbatim>\<open>np.argsort\<close>, the import of the label list) is a field of a record of
    collaborators, so that no behaviour of theirs is assumed beyond what a theorem
    states as a hypothesis.
\<close>

subsection \<open>The keyword table\<close>

text \<open>\<^verbatim>\<open>ANIMAL_BUCKETS\<close> (lines 13-30). A Python dict iterates in insertion order, so the
  table is an association list in the order of the source.\<close>

definition ANIMAL_BUCKETS :: "(string \<times> string list) list" where
  "ANIMAL_BUCKETS =
    [(''Dog'', [''dog'', ''labrador'', ''retriever'', ''shepherd'', ''chihuahua'', ''pug'',
               ''husky'', ''terrier'']),
     (''Cat'', [''cat'', ''tabby'', ''siamese'', ''persian'', ''lynx'']),
     (''Bird'', [''bird'', ''parrot'', ''jay'', ''magpie'', ''penguin'', ''ostrich'', ''eagle'',
                ''owl'', ''king penguin'']),
     (''Horse'', [''horse'', ''zebra'', ''donkey'']),
     (''Cattle'', [''cow'', ''ox'', ''bison'', ''buffalo'']),
     (''Sheep'', [''sheep'', ''ram'']),
     (''Goat'', [''goat'']),
     (''Pig'', [''pig'', ''boar'', ''hog'']),
     (''Rabbit'', [''hare'', ''rabbit'']),
     (''Bear'', [''bear'', ''panda'']),
     (''Feline'', [''tiger'', ''lion'', ''leopard'', ''cheetah'', ''jaguar'']),
     (''Canine'', [''wolf'', ''fox'']),
     (''Rodent'', [''mouse'', ''rat'', ''squirrel'', ''hamster'']),
     (''Reptile'', [''snake'', ''lizard'', ''crocodile'', ''turtle'']),
     (''Fish'', [''fish'', ''shark'', ''ray'', ''goldfish'']),
     (''Insect'', [''butterfly'', ''bee'', ''ant'', ''dragonfly'', ''ladybug'', ''beetle'',
                  ''mosquito''])]"

subsection \<open>Data\<close>

text \<open>The exceptions the body of \<^verbatim>\<open>predict\<close> can raise by itself: calling
  \<^verbatim>\<open>self.model\<close> while it is still \<^verbatim>\<open>None\<close> (TypeError), \<^verbatim>\<open>np.max\<close> of an empty
  array (ValueError), and an index past the end of \<^verbatim>\<open>labels\<close> or \<^verbatim>\<open>probs\<close>
  (IndexError).\<close>

datatype error = TypeError | ValueError | IndexError

text \<open>One element of the returned list, \<^verbatim>\<open>{"label": key, "score": ...}\<close>.\<close>

record entry =
  label :: string
  score :: real

text \<open>The instance: \<^verbatim>\<open>__init__\<close> sets \<^verbatim>\<open>self.model = None\<close>; \<^verbatim>\<open>_load\<close> stores the
  network and the input size. The network is a function from the input tensor to the
  logit vector of the single batch element (line 71).\<close>

record 'tensor classifier =
  model_name :: string
  model :: "('tensor \<Rightarrow> real list) option"
  input_size :: "(nat \<times> nat \<times> nat) option"

text \<open>The collaborators of \<^verbatim>\<open>predict\<close>:
  \<^item> \<open>transforms\<close>: lines 58-66 and 70, from the image to the tensor given to the network;
  \<^item> \<open>np_argsort\<close>: \<^verbatim>\<open>np.argsort\<close> of line 84;
  \<^item> \<open>imagenet_labels\<close>: what the import of line 77 yields, \<open>None\<close> when it raises.\<close>

record ('img, 'tensor) collaborators =
  transforms :: "'img \<Rightarrow> 'tensor"
  np_argsort :: "real list \<Rightarrow> nat list"
  imagenet_labels :: "string list option"

subsection \<open>Strings\<close>

text \<open>\<^verbatim>\<open>str.lower\<close> on ASCII.\<close>

definition lower_char :: "char \<Rightarrow> char" where
  "lower_char c =
     (let n = (of_char c :: nat) in if 65 \<le> n \<and> n \<le> 90 then char_of (n + 32) else c)"

definition lower :: "string \<Rightarrow> string" where
  "lower s = map lower_char s"

text \<open>\<^verbatim>\<open>str(i)\<close> for a non-negative integer, as the f-string of line 81 formats it.\<close>

definition digit_char :: "nat \<Rightarrow> char" where
  "digit_char d = ''0123456789'' ! d"

function str_nat :: "nat \<Rightarrow> string" where
  "str_nat n = (if n < 10 then [digit_char n] else str_nat (n div 10) @ [digit_char (n mod 10)])"
  by pat_completeness auto

termination
  by (relation "measure id") auto

text \<open>The fallback labels of line 81: \<^verbatim>\<open>[f"class_{i}" for i in range(len(probs))]\<close>.\<close>

definition placeholder :: "nat \<Rightarrow> string" where
  "placeholder i = ''class_'' @ str_nat i"

definition fallback_labels :: "nat \<Rightarrow> string list" where
  "fallback_labels n = map placeholder [0..<n]"

subsection \<open>Softmax (lines 72-73)\<close>

text \<open>\<^verbatim>\<open>np.max\<close> of a non-empty vector.\<close>

fun np_max :: "real list \<Rightarrow> real" where
  "np_max [] = 0"
| "np_max (x # xs) = fold max xs x"

text \<open>\<^verbatim>\<open>probs = np.exp(logits - np.max(logits)); probs = probs / probs.sum()\<close>.
  The empty vector, on which \<^verbatim>\<open>np.max\<close> raises, is excluded by the caller.\<close>

definition softmax :: "real list \<Rightarrow> real list" where
  "softmax logits =
     (let m = np_max logits;
          probs = map (\<lambda>x. exp (x - m)) logits;
          total = sum_list probs
      in map (\<lambda>p. p / total) probs)"

subsection \<open>Top-K selection (line 84)\<close>

text \<open>\<^verbatim>\<open>np.argsort(probs)[-20:][::-1]\<close>: the last 20 indices of the ascending
  order (all of them when there are fewer), reversed.\<close>

definition select_topk :: "(real list \<Rightarrow> nat list) \<Rightarrow> real list \<Rightarrow> nat list" where
  "select_topk argsort probs =
     (let order = argsort probs in rev (drop (length order - 20) order))"

text \<open>What numpy documents of \<^verbatim>\<open>argsort\<close>: the result holds every index once, and
  reading the vector in that order is ascending. The default sort kind is not stable,
  so nothing is said about the order of equal values.\<close>

definition is_argsort :: "real list \<Rightarrow> nat list \<Rightarrow> bool" where
  "is_argsort ps js \<longleftrightarrow>
     distinct js \<and> set js = {0..<length ps} \<and> sorted (map (\<lambda>j. ps ! j) js)"

text \<open>One function that meets this contract, used to run the model on concrete inputs.\<close>

definition argsort_stable :: "real list \<Rightarrow> nat list" where
  "argsort_stable ps = sort_key (\<lambda>j. ps ! j) [0..<length ps]"

subsection \<open>Bucket matching (lines 85-94)\<close>

text \<open>The dict \<^verbatim>\<open>found\<close>, in insertion order.\<close>

type_synonym found = "(string \<times> real) list"

text \<open>Lines 93-94: \<^verbatim>\<open>if bucket not in found or found[bucket] < score: found[bucket] = score\<close>.
  Assigning to a key of a dict keeps the key's position, or appends a new key.\<close>

definition record_score :: "string \<Rightarrow> real \<Rightarrow> found \<Rightarrow> found" where
  "record_score bucket s fnd =
     (case map_of fnd bucket of
        None \<Rightarrow> AList.update bucket s fnd
      | Some v \<Rightarrow> if v < s then AList.update bucket s fnd else fnd)"

text \<open>Lines 90-94: the loop over the keywords of one bucket; \<^verbatim>\<open>k in label\<close> is
  \<^term>\<open>sublist k lbl\<close>.\<close>

definition scan_keywords :: "string \<Rightarrow> string list \<Rightarrow> string \<Rightarrow> real \<Rightarrow> found \<Rightarrow> found" where
  "scan_keywords bucket keywords lbl s fnd =
     fold (\<lambda>k f. if sublist k lbl then record_score bucket s f else f) keywords fnd"

text \<open>Lines 89-94: the loop over the items of the table.\<close>

definition scan_buckets :: "(string \<times> string list) list \<Rightarrow> string \<Rightarrow> real \<Rightarrow> found \<Rightarrow> found" where
  "scan_buckets table lbl s fnd =
     fold (\<lambda>(bucket, keywords) f. scan_keywords bucket keywords lbl s f) table fnd"

text \<open>Lines 86-94: the loop over the selected indices. \<^verbatim>\<open>labels[idx]\<close> is read first,
  then \<^verbatim>\<open>probs[idx]\<close>; either raises IndexError past the end.\<close>

fun scan_topk :: "string list \<Rightarrow> real list \<Rightarrow> nat list \<Rightarrow> found \<Rightarrow> error + found" where
  "scan_topk labels probs [] fnd = Inr fnd"
| "scan_topk labels probs (idx # rest) fnd =
     (if \<not> idx < length labels then Inl IndexError
      else if \<not> idx < length probs then Inl IndexError
      else scan_topk labels probs rest
             (scan_buckets ANIMAL_BUCKETS (lower (labels ! idx)) (probs ! idx) fnd))"

subsection \<open>The result (line 97)\<close>

text \<open>\<^verbatim>\<open>sorted(found, key=found.get, reverse=True)\<close> orders the keys by their value,
  descending; Python's sort is stable also with \<^verbatim>\<open>reverse=True\<close>, so keys of equal
  value keep their insertion order. Each key is then paired with \<^verbatim>\<open>found[key]\<close>, its
  own value, so the model sorts the items.\<close>

definition build_result :: "found \<Rightarrow> entry list" where
  "build_result fnd =
     map (\<lambda>(key, v). \<lparr>label = key, score = v\<rparr>) (sort_key (\<lambda>(key, v). - v) fnd)"

subsection \<open>predict (lines 56-98)\<close>

text \<open>Lines 76-81: the imported label list, or the placeholders when the import
  raises.\<close>

definition load_labels :: "('img, 'tensor) collaborators \<Rightarrow> real list \<Rightarrow> string list" where
  "load_labels env probs =
     (case imagenet_labels env of
        Some ls \<Rightarrow> ls
      | None \<Rightarrow> fallback_labels (length probs))"

text \<open>Lines 72-98, from the logit vector on.\<close>

definition classify :: "('img, 'tensor) collaborators \<Rightarrow> real list \<Rightarrow> error + entry list" where
  "classify env logits =
     (if logits = [] then Inl ValueError
      else
        let probs = softmax logits;
            labels = load_labels env probs;
            topk = select_topk (np_argsort env) probs
        in case scan_topk labels probs topk [] of
             Inl e \<Rightarrow> Inl e
           | Inr fnd \<Rightarrow> Inr (build_result fnd))"

text \<open>The method takes the instance and returns its value (or the exception) together
  with the instance after the call. No statement of the body assigns to \<^verbatim>\<open>self\<close> or
  to a module-level name, so the instance is returned as it came.\<close>

definition predict ::
  "('img, 'tensor) collaborators \<Rightarrow> 'tensor classifier \<Rightarrow> 'img
     \<Rightarrow> (error + entry list) \<times> 'tensor classifier" where
  "predict env self inputs =
     (case model self of
        None \<Rightarrow> (Inl TypeError, self)
      | Some net \<Rightarrow> (classify env (net (transforms env inputs)), self))"

subsection \<open>Notions used to state the properties\<close>

text \<open>A label matches a bucket of a table when some keyword of that bucket occurs in
  it: the condition under which lines 89-94 reach \<^verbatim>\<open>found[bucket]\<close>.\<close>

definition bucket_matches :: "(string \<times> string list) list \<Rightarrow> string \<Rightarrow> string \<Rightarrow> bool" where
  "bucket_matches table bucket lbl \<longleftrightarrow>
     (\<exists>(b, keywords) \<in> set table. b = bucket \<and> (\<exists>k \<in> set keywords. sublist k lbl))"

text \<open>The calls the properties of a prediction are about: the network is loaded and
  returns the logit vector \<open>logits\<close>, with at least one class; \<^verbatim>\<open>np.argsort\<close> meets
  its contract on the probability vector; and the label list, when the import
  succeeds, has a label for every class.\<close>

definition valid_call ::
  "('img, 'tensor) collaborators \<Rightarrow> 'tensor classifier \<Rightarrow> 'img \<Rightarrow> real list \<Rightarrow> bool" where
  "valid_call env self inputs logits \<longleftrightarrow>
     map_option (\<lambda>net. net (transforms env inputs)) (model self) = Some logits
     \<and> logits \<noteq> []
     \<and> is_argsort (softmax logits) (np_argsort env (softmax logits))
     \<and> (case imagenet_labels env of None \<Rightarrow> True | Some ls \<Rightarrow> length logits \<le> length ls)"

text \<open>The selected indices whose lower-cased label matches a bucket of the table, in the
  order of selection.\<close>

definition matching :: "string list \<Rightarrow> string \<Rightarrow> nat list \<Rightarrow> nat list" where
  "matching labels b idxs =
     filter (\<lambda>i. bucket_matches ANIMAL_BUCKETS b (lower (labels ! i))) idxs"

text \<open>What lines 93-94 leave under a key, from what was there before.\<close>

definition keep_max :: "real option \<Rightarrow> real \<Rightarrow> real option" where
  "keep_max acc s = Some (case acc of None \<Rightarrow> s | Some v \<Rightarrow> max v s)"

text \<open>The characters a lower-cased placeholder label is made of.\<close>

definition placeholder_alphabet :: "string" where
  "placeholder_alphabet = ''class_'' @ ''0123456789''"

subsection \<open>A concrete instance\<close>

text \<open>A loaded classifier with three classes whose network returns its input, so that
  the image of a call is its logit vector; used to run the model.\<close>

definition example_env :: "(real list, real list) collaborators" where
  "example_env =
     \<lparr>transforms = (\<lambda>x. x), np_argsort = argsort_stable,
      imagenet_labels = Some [''Siamese cat'', ''tabby'', ''Labrador retriever'']\<rparr>"

definition example_self :: "real list classifier" where
  "example_self =
     \<lparr>model_name = ''resnet34'', model = Some (\<lambda>x. x), input_size = Some (3, 224, 224)\<rparr>"

text \<open>Variants of the instance: the import of the labels fails; a label list with a
  lower-case Labrador label; a label list without any animal.\<close>

definition unlabelled_env :: "(real list, real list) collaborators" where
  "unlabelled_env = example_env\<lparr>imagenet_labels := None\<rparr>"


definition plain_env :: "(real list, real list) collaborators" where
  "plain_env = example_env\<lparr>imagenet_labels := Some [''Granny Smith'', ''volcano'']\<rparr>"

text \<open>An instance with 21 classes: class 0 has the greatest probability and a
  Labrador label, class 20 the least and a cat label, the others lie between and name
  no animal. \<open>wide_probs\<close> is the probability vector of \<open>wide_logits\<close>.\<close>

definition wide_logits :: "real list" where
  "wide_logits =
     [0, - ln 2, - ln 2, - ln 2, - ln 2, - ln 2, - ln 2, - ln 2, - ln 2, - ln 2, - ln 2,
      - ln 2, - ln 2, - ln 2, - ln 2, - ln 2, - ln 2, - ln 2, - ln 2, - ln 2, - ln 4]"

definition wide_labels :: "string list" where
  "wide_labels =
     [''Labrador retriever'', ''volcano'', ''volcano'', ''volcano'', ''volcano'', ''volcano'',
      ''volcano'', ''volcano'', ''volcano'', ''volcano'', ''volcano'', ''volcano'', ''volcano'',
      ''volcano'', ''volcano'', ''volcano'', ''volcano'', ''volcano'', ''volcano'', ''volcano'',
      ''tabby'']"

definition wide_env :: "(real list, real list) collaborators" where
  "wide_env = example_env\<lparr>imagenet_labels := Some wide_labels\<rparr>"

definition wide_probs :: "real list" where
  "wide_probs =
     [4 / 43, 2 / 43, 2 / 43, 2 / 43, 2 / 43, 2 / 43, 2 / 43, 2 / 43, 2 / 43, 2 / 43, 2 / 43,
      2 / 43, 2 / 43, 2 / 43, 2 / 43, 2 / 43, 2 / 43, 2 / 43, 2 / 43, 2 / 43, 1 / 43]"

section \<open>Auxiliary facts\<close>

subsection \<open>Strings and placeholder labels\<close>



lemma digit_char_in: "d < 10 \<Longrightarrow> digit_char d \<in> set ''0123456789''"
  unfolding digit_char_def by (rule nth_mem) simp

lemma str_nat_digits: "set (str_nat n) \<subseteq> set ''0123456789''"
proof (induction n rule: str_nat.induct)
  case (1 n)
  show ?case
  proof (cases "n < 10")
    case True
    then show ?thesis using digit_char_in [of n] by (subst str_nat.simps) simp
  next
    case False
    have "n mod 10 < 10" by simp
    then have "digit_char (n mod 10) \<in> set ''0123456789''" by (rule digit_char_in)
    with 1 False show ?thesis by (subst str_nat.simps) simp
  qed
qed

lemma lower_placeholder_alphabet: "set (lower (placeholder i)) \<subseteq> set placeholder_alphabet"
proof -
  have "set (placeholder i) \<subseteq> set placeholder_alphabet"
    unfolding placeholder_def placeholder_alphabet_def set_append
    using str_nat_digits [of i] by blast
  then have "lower_char ` set (placeholder i) \<subseteq> lower_char ` set placeholder_alphabet"
    by (rule image_mono)
  moreover have "map lower_char placeholder_alphabet = placeholder_alphabet"
    by (simp add: placeholder_alphabet_def lower_char_def)
  then have "lower_char ` set placeholder_alphabet = set placeholder_alphabet"
    by (metis set_map)
  ultimately show ?thesis by (simp add: lower_def)
qed

lemma keywords_leave_alphabet:
  "\<forall>(b, kws) \<in> set ANIMAL_BUCKETS. \<forall>k \<in> set kws. \<not> set k \<subseteq> set placeholder_alphabet"
  by (simp add: ANIMAL_BUCKETS_def placeholder_alphabet_def)

lemma placeholder_no_match: "\<not> bucket_matches ANIMAL_BUCKETS b (lower (placeholder i))"
proof
  assume "bucket_matches ANIMAL_BUCKETS b (lower (placeholder i))"
  then obtain kws k where in_table: "(b, kws) \<in> set ANIMAL_BUCKETS"
    and k: "k \<in> set kws" and sub: "sublist k (lower (placeholder i))"
    by (auto simp: bucket_matches_def)
  from sub have "set k \<subseteq> set (lower (placeholder i))" by (rule set_mono_sublist)
  with lower_placeholder_alphabet have "set k \<subseteq> set placeholder_alphabet" by blast
  with keywords_leave_alphabet in_table k show False by blast
qed

subsection \<open>softmax\<close>

lemma length_softmax: "length (softmax logits) = length logits"
  by (simp add: softmax_def Let_def)

lemma exp_shift_total_pos:
  "logits \<noteq> [] \<Longrightarrow> 0 < sum_list (map (\<lambda>x. exp (x - m)) logits)" for m :: real
proof (induction logits)
  case Nil
  then show ?case by simp
next
  case (Cons x xs)
  have "0 \<le> sum_list (map (\<lambda>x. exp (x - m)) xs)"
    by (rule sum_list_nonneg) auto
  moreover have "0 < exp (x - m)" by simp
  ultimately show ?case by (simp add: add_pos_nonneg)
qed

lemma softmax_pos: "p \<in> set (softmax logits) \<Longrightarrow> 0 < p"
proof -
  assume p: "p \<in> set (softmax logits)"
  then have "logits \<noteq> []" by (auto simp: softmax_def Let_def)
  then have "0 < sum_list (map (\<lambda>x. exp (x - np_max logits)) logits)"
    by (rule exp_shift_total_pos)
  with p show ?thesis by (auto simp: softmax_def Let_def)
qed

lemma sum_list_divide: "sum_list (map (\<lambda>p. p / c) ps) = sum_list ps / c" for c :: real
  by (induction ps) (simp_all add: add_divide_distrib)

lemma softmax_sum: "logits \<noteq> [] \<Longrightarrow> sum_list (softmax logits) = 1"
proof -
  assume "logits \<noteq> []"
  then have "0 < sum_list (map (\<lambda>x. exp (x - np_max logits)) logits)"
    by (rule exp_shift_total_pos)
  moreover have "sum_list (softmax logits) =
      sum_list (map (\<lambda>x. exp (x - np_max logits)) logits)
        / sum_list (map (\<lambda>x. exp (x - np_max logits)) logits)"
    unfolding softmax_def Let_def by (rule sum_list_divide)
  ultimately show ?thesis by simp
qed

lemma softmax_le_1: "p \<in> set (softmax logits) \<Longrightarrow> p \<le> 1"
proof -
  assume p: "p \<in> set (softmax logits)"
  then have ne: "logits \<noteq> []" by (auto simp: softmax_def Let_def)
  have "\<forall>q \<in> set (softmax logits). 0 \<le> q" using softmax_pos by (auto intro: less_imp_le)
  then have "p \<le> sum_list (softmax logits)" using p by (intro member_le_sum_list) auto
  with softmax_sum [OF ne] show ?thesis by simp
qed

subsection \<open>top-k\<close>

lemma is_argsort_stable: "is_argsort ps (argsort_stable ps)"
  by (simp add: is_argsort_def argsort_stable_def)

lemma select_topk_set:
  "is_argsort ps (argsort ps) \<Longrightarrow> set (select_topk argsort ps) \<subseteq> {0..<length ps}"
  unfolding select_topk_def Let_def is_argsort_def
  using set_drop_subset by fastforce

lemma select_topk_distinct: "is_argsort ps (argsort ps) \<Longrightarrow> distinct (select_topk argsort ps)"
  by (simp add: select_topk_def Let_def is_argsort_def)

lemma is_argsort_length: "is_argsort ps js \<Longrightarrow> length js = length ps"
  unfolding is_argsort_def by (metis card_atLeastLessThan diff_zero distinct_card)

lemma select_topk_length:
  "is_argsort ps (argsort ps) \<Longrightarrow> length (select_topk argsort ps) = min 20 (length ps)"
  by (auto simp: select_topk_def Let_def dest: is_argsort_length)

lemma select_topk_dominates:
  assumes "is_argsort ps (argsort ps)"
    and "i \<in> set (select_topk argsort ps)"
    and "j < length ps" and "j \<notin> set (select_topk argsort ps)"
  shows "ps ! j \<le> ps ! i"
proof -
  define js where "js = argsort ps"
  define k where "k = length js - 20"
  have split: "js = take k js @ drop k js" by simp
  from assms(1) have srt: "sorted (map (\<lambda>j. ps ! j) js)" and all: "set js = {0..<length ps}"
    by (simp_all add: is_argsort_def js_def)
  from assms(2) have i: "i \<in> set (drop k js)"
    by (simp add: select_topk_def Let_def js_def k_def)
  from assms(4) have "j \<notin> set (drop k js)"
    by (simp add: select_topk_def Let_def js_def k_def)
  moreover from assms(3) all have "j \<in> set js" by simp
  ultimately have j: "j \<in> set (take k js)" by (metis Un_iff set_append split)
  from srt have "sorted (map (\<lambda>j. ps ! j) (take k js) @ map (\<lambda>j. ps ! j) (drop k js))"
    by (metis map_append split)
  with i j show ?thesis by (auto simp: sorted_append)
qed


subsection \<open>record_score\<close>

lemma map_of_record_score:
  "map_of (record_score b s fnd) = (map_of fnd)(b := keep_max (map_of fnd b) s)"
  by (auto simp: record_score_def keep_max_def update_conv' fun_eq_iff max_def split: option.splits)

lemma keys_record_score:
  "map fst (record_score b s fnd) =
     (if b \<in> set (map fst fnd) then map fst fnd else map fst fnd @ [b])"
  by (auto simp: record_score_def update_keys map_of_eq_None_iff split: option.splits
           dest: map_of_SomeD intro: rev_image_eqI)

lemma record_score_twice: "record_score b s (record_score b s fnd) = record_score b s fnd"
proof -
  have "map_of (record_score b s fnd) b = keep_max (map_of fnd b) s"
    by (simp add: map_of_record_score)
  then obtain v where "map_of (record_score b s fnd) b = Some v" and "s \<le> v"
    by (auto simp: keep_max_def split: option.splits)
  then show ?thesis by (subst (1) record_score_def) simp
qed

lemma scan_keywords_eq:
  "scan_keywords b kws lbl s fnd =
     (if \<exists>k \<in> set kws. sublist k lbl then record_score b s fnd else fnd)"
proof -
  have "fold (\<lambda>k f. if sublist k lbl then record_score b s f else f) kws (record_score b s fnd)
          = record_score b s fnd"
    for kws fnd
    by (induction kws) (simp_all add: record_score_twice)
  moreover have "fold (\<lambda>k f. if sublist k lbl then record_score b s f else f) kws fnd =
      (if \<exists>k \<in> set kws. sublist k lbl then record_score b s fnd else fnd)"
    using calculation by (induction kws arbitrary: fnd) (simp_all add: record_score_twice)
  ultimately show ?thesis by (simp add: scan_keywords_def)
qed

lemma map_of_scan_buckets:
  "map_of (scan_buckets table lbl s fnd) b =
     (if bucket_matches table b lbl then keep_max (map_of fnd b) s else map_of fnd b)"
proof (induction table arbitrary: fnd)
  case Nil
  then show ?case by (simp add: scan_buckets_def bucket_matches_def)
next
  case (Cons row table)
  obtain b' kws where row: "row = (b', kws)" by (cases row)
  have step: "scan_buckets (row # table) lbl s fnd =
      scan_buckets table lbl s (scan_keywords b' kws lbl s fnd)"
    by (simp add: scan_buckets_def row)
  have tail: "bucket_matches (row # table) b lbl \<longleftrightarrow>
      (b' = b \<and> (\<exists>k \<in> set kws. sublist k lbl)) \<or> bucket_matches table b lbl"
    by (auto simp: bucket_matches_def row)
  have twice: "keep_max (keep_max acc s) s = keep_max acc s" for acc
    by (simp add: keep_max_def split: option.splits)
  show ?case
    unfolding step Cons.IH tail
    by (auto simp: scan_keywords_eq map_of_record_score twice)
qed

lemma keys_scan_buckets:
  "distinct (map fst fnd) \<Longrightarrow> distinct (map fst (scan_buckets table lbl s fnd))"
proof (induction table arbitrary: fnd)
  case Nil
  then show ?case by (simp add: scan_buckets_def)
next
  case (Cons row table)
  obtain b' kws where row: "row = (b', kws)" by (cases row)
  have step: "scan_buckets (row # table) lbl s fnd =
      scan_buckets table lbl s (scan_keywords b' kws lbl s fnd)"
    by (simp add: scan_buckets_def row)
  from Cons.prems have "distinct (map fst (scan_keywords b' kws lbl s fnd))"
    by (simp add: scan_keywords_eq keys_record_score)
  then show ?case unfolding step by (rule Cons.IH)
qed



lemma scan_topk_map_of:
  "scan_topk labels probs idxs fnd = Inr fnd' \<Longrightarrow>
     map_of fnd' b =
       fold (\<lambda>i acc. keep_max acc (probs ! i)) (matching labels b idxs) (map_of fnd b)"
proof (induction idxs arbitrary: fnd)
  case Nil
  then show ?case by (simp add: matching_def)
next
  case (Cons idx rest)
  from Cons.prems have
    "scan_topk labels probs rest
       (scan_buckets ANIMAL_BUCKETS (lower (labels ! idx)) (probs ! idx) fnd) = Inr fnd'"
    by (simp split: if_splits)
  from Cons.IH [OF this] show ?case
    by (simp add: matching_def map_of_scan_buckets)
qed

lemma scan_topk_distinct:
  "scan_topk labels probs idxs fnd = Inr fnd' \<Longrightarrow> distinct (map fst fnd)
     \<Longrightarrow> distinct (map fst fnd')"
proof (induction idxs arbitrary: fnd)
  case Nil
  then show ?case by simp
next
  case (Cons idx rest)
  from Cons.prems(1) have
    "scan_topk labels probs rest
       (scan_buckets ANIMAL_BUCKETS (lower (labels ! idx)) (probs ! idx) fnd) = Inr fnd'"
    by (simp split: if_splits)
  moreover from Cons.prems(2) have
    "distinct (map fst (scan_buckets ANIMAL_BUCKETS (lower (labels ! idx)) (probs ! idx) fnd))"
    by (rule keys_scan_buckets)
  ultimately show ?case by (rule Cons.IH)
qed


lemma scan_topk_total:
  "\<forall>i \<in> set idxs. i < length labels \<and> i < length probs
     \<Longrightarrow> \<exists>fnd'. scan_topk labels probs idxs fnd = Inr fnd'"
  by (induction idxs arbitrary: fnd) simp_all

text \<open>Folding keep_max: the greatest of the scores.\<close>

lemma fold_keep_max_Some:
  "fold (\<lambda>i acc. keep_max acc (f i)) is (Some v) = Some (fold max (map f is) v)"
  by (induction "is" arbitrary: v) (simp_all add: keep_max_def max.commute)

lemma fold_keep_max_None:
  "fold (\<lambda>i acc. keep_max acc (f i)) is None =
     (if is = [] then None else Some (Max (set (map f is))))"
proof (cases "is")
  case Nil
  then show ?thesis by simp
next
  case (Cons i rest)
  have "keep_max None (f i) = Some (f i)"
    by (simp add: keep_max_def)
  then have "fold (\<lambda>i acc. keep_max acc (f i)) (i # rest) None = Some (fold max (map f rest) (f i))"
    by (simp add: fold_keep_max_Some)
  also have "fold max (map f rest) (f i) = Max (set (map f (i # rest)))"
    using Max.set_eq_fold [of "f i" "map f rest"] by simp
  finally show ?thesis using Cons by simp
qed

lemma scan_topk_Max:
  assumes "scan_topk labels probs idxs [] = Inr fnd"
  shows "map_of fnd b =
     (if matching labels b idxs = [] then None
      else Some (Max (set (map (\<lambda>i. probs ! i) (matching labels b idxs)))))"
  using scan_topk_map_of [OF assms, of b] by (simp add: fold_keep_max_None)

subsection \<open>build_result\<close>

lemma set_build_result:
  "set (build_result fnd) = (\<lambda>(key, v). \<lparr>label = key, score = v\<rparr>) ` set fnd"
  by (simp add: build_result_def)

lemma labels_build_result:
  "map label (build_result fnd) = map fst (sort_key (\<lambda>(key, v). - v) fnd)"
  by (simp add: build_result_def case_prod_beta comp_def)

lemma distinct_build_result:
  "distinct (map fst fnd) \<Longrightarrow> distinct (map label (build_result fnd))"
  by (simp add: labels_build_result distinct_map)

lemma length_build_result: "length (build_result fnd) = length fnd"
  by (simp add: build_result_def)

lemma sorted_build_result: "sorted_wrt (\<lambda>a b. b \<le> a) (map score (build_result fnd))"
proof -
  have "sorted (map (\<lambda>(key, v). - v) (sort_key (\<lambda>(key, v). - v) fnd))"
    by (rule sorted_sort_key)
  then have "sorted_wrt (\<lambda>p q. snd q \<le> snd p) (sort_key (\<lambda>(key, v). - v) fnd)"
    by (simp add: sorted_map case_prod_beta)
  then show ?thesis
    by (simp add: build_result_def sorted_wrt_map case_prod_beta)
qed


subsection \<open>predict\<close>

lemma predict_valid:
  assumes "valid_call env self inputs logits"
  shows "\<exists>fnd. scan_topk (load_labels env (softmax logits)) (softmax logits)
                 (select_topk (np_argsort env) (softmax logits)) [] = Inr fnd
              \<and> predict env self inputs = (Inr (build_result fnd), self)"
proof -
  let ?probs = "softmax logits"
  let ?labels = "load_labels env ?probs"
  let ?topk = "select_topk (np_argsort env) ?probs"
  from assms obtain net where net: "model self = Some net"
    and logits: "net (transforms env inputs) = logits" and ne: "logits \<noteq> []"
    and srt: "is_argsort ?probs (np_argsort env ?probs)"
    and cover: "case imagenet_labels env of None \<Rightarrow> True | Some ls \<Rightarrow> length logits \<le> length ls"
    by (auto simp: valid_call_def)
  have "length ?probs \<le> length ?labels"
    using cover by (simp add: load_labels_def fallback_labels_def length_softmax split: option.splits)
  moreover have "set ?topk \<subseteq> {0..<length ?probs}"
    using srt by (rule select_topk_set)
  ultimately have "\<forall>i \<in> set ?topk. i < length ?labels \<and> i < length ?probs"
    by auto
  then obtain fnd where "scan_topk ?labels ?probs ?topk [] = Inr fnd"
    using scan_topk_total by blast
  moreover from this have "predict env self inputs = (Inr (build_result fnd), self)"
    using net logits ne by (simp add: predict_def classify_def Let_def)
  ultimately show ?thesis by blast
qed

lemma predict_returned:
  assumes "model self = Some net" and "predict env self inputs = (Inr r, self')"
  shows "\<exists>fnd. scan_topk (load_labels env (softmax (net (transforms env inputs))))
                 (softmax (net (transforms env inputs)))
                 (select_topk (np_argsort env) (softmax (net (transforms env inputs)))) []
               = Inr fnd
              \<and> r = build_result fnd \<and> self' = self \<and> net (transforms env inputs) \<noteq> []"
  using assms
  by (auto simp: predict_def classify_def Let_def split: if_splits sum.splits)

subsection \<open>What the loop leaves in found\<close>


lemma scan_topk_in_range:
  "scan_topk labels probs idxs fnd = Inr fnd'
     \<Longrightarrow> \<forall>i \<in> set idxs. i < length labels \<and> i < length probs"
  by (induction idxs arbitrary: fnd) (auto split: if_splits)

lemma found_item:
  assumes "scan_topk labels probs idxs [] = Inr fnd" and "(b, v) \<in> set fnd"
  shows "matching labels b idxs \<noteq> []
         \<and> v = Max (set (map (\<lambda>i. probs ! i) (matching labels b idxs)))"
proof -
  from assms(1) have "distinct (map fst fnd)" by (rule scan_topk_distinct) simp
  with assms(2) have "map_of fnd b = Some v" by simp
  with scan_topk_Max [OF assms(1), of b] show ?thesis by (simp split: if_splits)
qed

lemma found_item_origin:
  assumes "scan_topk labels probs idxs [] = Inr fnd" and "(b, v) \<in> set fnd"
  shows "\<exists>i \<in> set idxs. i < length probs \<and> v = probs ! i
           \<and> bucket_matches ANIMAL_BUCKETS b (lower (labels ! i))"
proof -
  let ?ms = "matching labels b idxs"
  from found_item [OF assms] have ne: "?ms \<noteq> []"
    and v: "v = Max (set (map (\<lambda>i. probs ! i) ?ms))" by simp_all
  from ne have "Max (set (map (\<lambda>i. probs ! i) ?ms)) \<in> set (map (\<lambda>i. probs ! i) ?ms)"
    by (intro Max_in) simp_all
  with v obtain i where "i \<in> set ?ms" and "v = probs ! i" by auto
  moreover from this have "i \<in> set idxs"
    and "bucket_matches ANIMAL_BUCKETS b (lower (labels ! i))"
    by (simp_all add: matching_def)
  moreover from this scan_topk_in_range [OF assms(1)] have "i < length probs" by blast
  ultimately show ?thesis by blast
qed

lemma found_keys:
  assumes "scan_topk labels probs idxs [] = Inr fnd"
  shows "fst ` set fnd = {b. matching labels b idxs \<noteq> []}"
proof -
  have "fst ` set fnd = dom (map_of fnd)" by (simp add: dom_map_of_conv_image_fst)
  also have "\<dots> = {b. matching labels b idxs \<noteq> []}"
    using scan_topk_Max [OF assms] by (auto simp: dom_def)
  finally show ?thesis .
qed

lemma matching_nonempty:
  "matching labels b idxs \<noteq> [] \<longleftrightarrow>
     (\<exists>i \<in> set idxs. bucket_matches ANIMAL_BUCKETS b (lower (labels ! i)))"
  by (auto simp: matching_def filter_empty_conv)

lemma bucket_matches_key: "bucket_matches table b lbl \<Longrightarrow> b \<in> fst ` set table"
  by (force simp: bucket_matches_def)

lemma length_ANIMAL_BUCKETS: "length ANIMAL_BUCKETS = 16"
  by (simp add: ANIMAL_BUCKETS_def)

lemma found_length:
  assumes "scan_topk labels probs idxs [] = Inr fnd"
  shows "length fnd \<le> 16"
proof -
  from assms have dist: "distinct (map fst fnd)" by (rule scan_topk_distinct) simp
  have "fst ` set fnd \<subseteq> fst ` set ANIMAL_BUCKETS"
    unfolding found_keys [OF assms] matching_nonempty
    by (auto dest: bucket_matches_key)
  then have "card (fst ` set fnd) \<le> card (fst ` set ANIMAL_BUCKETS)"
    by (intro card_mono) simp_all
  also have "\<dots> \<le> length ANIMAL_BUCKETS"
    by (metis card_length list.set_map length_map)
  finally have "card (fst ` set fnd) \<le> 16" by (simp add: length_ANIMAL_BUCKETS)
  moreover have "card (fst ` set fnd) = length fnd"
    using dist by (metis distinct_card length_map list.set_map)
  ultimately show ?thesis by simp
qed

lemma probs_unit:
  assumes "i < length (softmax logits)"
  shows "0 \<le> softmax logits ! i \<and> softmax logits ! i \<le> 1"
proof -
  from assms have "softmax logits ! i \<in> set (softmax logits)" by simp
  then show ?thesis using softmax_pos softmax_le_1 by (auto intro: less_imp_le)
qed

subsection \<open>Running the model\<close>

lemma example_softmax: "softmax [ln 2, 0, 0] = [1 / 2, 1 / 4, 1 / 4]"
  by (simp add: softmax_def exp_minus)

lemma example_topk: "select_topk argsort_stable [1 / 2, 1 / 4, 1 / 4] = [0, 2, 1]"
  by (simp add: select_topk_def argsort_stable_def upt_rec)

lemma example_lower:
  "lower ''Siamese cat'' = ''siamese cat''" "lower ''tabby'' = ''tabby''"
  "lower ''Labrador retriever'' = ''labrador retriever''"
  by code_simp+

lemma scan_buckets_siamese:
  "scan_buckets ANIMAL_BUCKETS ''siamese cat'' s fnd = record_score ''Cat'' s fnd"
  by (simp add: scan_buckets_def ANIMAL_BUCKETS_def scan_keywords_eq sublist_code)

lemma scan_buckets_tabby:
  "scan_buckets ANIMAL_BUCKETS ''tabby'' s fnd = record_score ''Cat'' s fnd"
  by (simp add: scan_buckets_def ANIMAL_BUCKETS_def scan_keywords_eq sublist_code)

lemma scan_buckets_labrador:
  "scan_buckets ANIMAL_BUCKETS ''labrador retriever'' s fnd = record_score ''Dog'' s fnd"
  by (simp add: scan_buckets_def ANIMAL_BUCKETS_def scan_keywords_eq sublist_code)

lemma example_scan:
  "scan_topk [''Siamese cat'', ''tabby'', ''Labrador retriever''] [1 / 2, 1 / 4, 1 / 4] [0, 2, 1] []
     = Inr [(''Cat'', 1 / 2), (''Dog'', 1 / 4)]"
  by (simp add: example_lower scan_buckets_siamese scan_buckets_tabby scan_buckets_labrador
        record_score_def)

lemma example_result:
  "build_result [(''Cat'', 1 / 2), (''Dog'', 1 / 4)] =
     [\<lparr>label = ''Cat'', score = 1 / 2\<rparr>, \<lparr>label = ''Dog'', score = 1 / 4\<rparr>]"
  by (simp add: build_result_def)

lemma example_labels:
  "load_labels example_env ps = [''Siamese cat'', ''tabby'', ''Labrador retriever'']"
  by (simp add: load_labels_def example_env_def)

lemma example_select:
  "select_topk (np_argsort example_env) [1 / 2, 1 / 4, 1 / 4] = [0, 2, 1]"
  by (simp add: example_env_def example_topk)

lemma example_predict:
  "predict example_env example_self [ln 2, 0, 0] =
     (Inr [\<lparr>label = ''Cat'', score = 1 / 2\<rparr>, \<lparr>label = ''Dog'', score = 1 / 4\<rparr>], example_self)"
proof -
  have "classify example_env [ln 2, 0, 0] =
      Inr [\<lparr>label = ''Cat'', score = 1 / 2\<rparr>, \<lparr>label = ''Dog'', score = 1 / 4\<rparr>]"
    unfolding classify_def Let_def example_softmax example_labels example_select example_scan
    by (simp add: example_result)
  moreover have "transforms example_env x = x" for x :: "real list"
    by (simp add: example_env_def)
  ultimately show ?thesis by (simp add: predict_def example_self_def)
qed

subsection \<open>Further facts for the properties\<close>

lemma example_matching_cat:
  "matching [''Siamese cat'', ''tabby'', ''Labrador retriever''] ''Cat'' [0, 2, 1] = [0, 1]"
  by (simp add: matching_def example_lower bucket_matches_def ANIMAL_BUCKETS_def sublist_code)

lemma scan_no_match:
  assumes "scan_topk labels probs idxs [] = Inr fnd"
    and "\<forall>i \<in> set idxs. \<forall>b. \<not> bucket_matches ANIMAL_BUCKETS b (lower (labels ! i))"
  shows "fnd = []"
proof (cases fnd)
  case Nil
  then show ?thesis .
next
  case (Cons item rest)
  then have "(fst item, snd item) \<in> set fnd" by simp
  from found_item_origin [OF assms(1) this] assms(2) show ?thesis by blast
qed

lemma example_net: "model example_self = Some (\<lambda>x. x)"
  by (simp add: example_self_def)

lemma example_transforms: "transforms example_env x = x"
  by (simp add: example_env_def)





lemma example_softmax2: "softmax [0, ln 2] = [1 / 3, 2 / 3]"
  by (simp add: softmax_def exp_minus)

lemma example_topk2: "select_topk argsort_stable [1 / 3, 2 / 3] = [1, 0]"
  by (simp add: select_topk_def argsort_stable_def upt_rec)

lemma example_lower2:
  "lower ''Granny Smith'' = ''granny smith''" "lower ''volcano'' = ''volcano''"
  by code_simp+

lemma no_keyword_in_granny_smith:
  "\<forall>(b, kws) \<in> set ANIMAL_BUCKETS. \<forall>k \<in> set kws. \<not> sublist k ''granny smith''"
  by (simp add: ANIMAL_BUCKETS_def sublist_code)

lemma no_keyword_in_volcano:
  "\<forall>(b, kws) \<in> set ANIMAL_BUCKETS. \<forall>k \<in> set kws. \<not> sublist k ''volcano''"
  by (simp add: ANIMAL_BUCKETS_def sublist_code)

lemma example_valid:
  "imagenet_labels env' = None \<or> imagenet_labels env' = Some ls \<and> length logits \<le> length ls
   \<Longrightarrow> logits \<noteq> [] \<Longrightarrow> np_argsort env' = argsort_stable \<Longrightarrow> transforms env' = (\<lambda>x. x)
   \<Longrightarrow> valid_call env' example_self logits logits"
  by (auto simp: valid_call_def example_self_def is_argsort_stable)

lemma wide_softmax: "softmax wide_logits = wide_probs"
  by (simp add: softmax_def wide_logits_def wide_probs_def exp_minus)

lemma wide_topk:
  "select_topk argsort_stable wide_probs =
     [0, 19, 18, 17, 16, 15, 14, 13, 12, 11, 10, 9, 8, 7, 6, 5, 4, 3, 2, 1]"
  by (simp add: select_topk_def argsort_stable_def wide_probs_def upt_rec)

lemma scan_buckets_volcano: "scan_buckets ANIMAL_BUCKETS ''volcano'' s fnd = fnd"
  by (simp add: scan_buckets_def ANIMAL_BUCKETS_def scan_keywords_eq sublist_code)

lemma wide_scan:
  "scan_topk wide_labels wide_probs
     [0, 19, 18, 17, 16, 15, 14, 13, 12, 11, 10, 9, 8, 7, 6, 5, 4, 3, 2, 1] []
     = Inr [(''Dog'', 4 / 43)]"
  by (simp add: wide_labels_def wide_probs_def example_lower example_lower2
        scan_buckets_labrador scan_buckets_volcano record_score_def)

lemma wide_labels_loaded: "load_labels wide_env ps = wide_labels"
  by (simp add: load_labels_def wide_env_def)

lemma wide_select:
  "select_topk (np_argsort wide_env) wide_probs =
     [0, 19, 18, 17, 16, 15, 14, 13, 12, 11, 10, 9, 8, 7, 6, 5, 4, 3, 2, 1]"
  by (simp add: wide_env_def example_env_def wide_topk)

lemma wide_predict:
  "predict wide_env example_self wide_logits =
     (Inr [\<lparr>label = ''Dog'', score = 4 / 43\<rparr>], example_self)"
proof -
  have "wide_logits \<noteq> []" by (simp add: wide_logits_def)
  then have "classify wide_env wide_logits = Inr [\<lparr>label = ''Dog'', score = 4 / 43\<rparr>]"
    unfolding classify_def Let_def wide_softmax wide_labels_loaded wide_select wide_scan
    by (simp add: build_result_def)
  moreover have "transforms wide_env x = x" for x :: "real list"
    by (simp add: wide_env_def example_env_def)
  ultimately show ?thesis by (simp add: predict_def example_self_def)
qed

lemma wide_valid: "valid_call wide_env example_self wide_logits wide_logits"
  by (rule example_valid [where ls = wide_labels])
     (simp_all add: wide_env_def example_env_def wide_labels_def wide_logits_def)

section \<open>The properties\<close>

text \<open>C1. A valid call returns a list in which every score lies between 0 and 1 and
  the scores do not increase along the list.\<close>

theorem predict_scores_sorted:
  assumes "valid_call env self inputs logits"
  shows "\<exists>r. predict env self inputs = (Inr r, self)
             \<and> (\<forall>e \<in> set r. 0 \<le> score e \<and> score e \<le> 1)
             \<and> sorted_wrt (\<lambda>a b. b \<le> a) (map score r)"
proof -
  from predict_valid [OF assms] obtain fnd where
    run: "scan_topk (load_labels env (softmax logits)) (softmax logits)
            (select_topk (np_argsort env) (softmax logits)) [] = Inr fnd"
    and r: "predict env self inputs = (Inr (build_result fnd), self)" by blast
  have "0 \<le> score e \<and> score e \<le> 1" if "e \<in> set (build_result fnd)" for e
  proof -
    from that obtain b v where bv: "(b, v) \<in> set fnd" and e: "e = \<lparr>label = b, score = v\<rparr>"
      by (auto simp: set_build_result)
    from found_item_origin [OF run bv] obtain i where
      "i < length (softmax logits)" and "v = softmax logits ! i" by blast
    with probs_unit show ?thesis by (simp add: e)
  qed
  with r sorted_build_result show ?thesis by blast
qed

theorem predict_scores_sorted_witness:
  "valid_call example_env example_self [ln 2, 0, 0] [ln 2, 0, 0]
   \<and> (\<exists>r. predict example_env example_self [ln 2, 0, 0] = (Inr r, example_self)
          \<and> (\<forall>e \<in> set r. 0 \<le> score e \<and> score e \<le> 1)
          \<and> sorted_wrt (\<lambda>a b. b \<le> a) (map score r))"
proof -
  have valid: "valid_call example_env example_self [ln 2, 0, 0] [ln 2, 0, 0]"
    by (simp add: valid_call_def example_env_def example_self_def is_argsort_stable)
  from valid predict_scores_sorted [OF valid] show ?thesis by blast
qed

text \<open>C2. The score recorded for a bucket is the greatest of the probabilities of the
  selected classes whose label matches it, however many there are; with two such
  classes it is the larger of the two probabilities, not their sum.\<close>

theorem bucket_score_is_max:
  assumes "model self = Some net" and "predict env self inputs = (Inr r, self')"
    and "e \<in> set r"
  shows "matching (load_labels env (softmax (net (transforms env inputs)))) (label e)
           (select_topk (np_argsort env) (softmax (net (transforms env inputs)))) \<noteq> []
         \<and> score e =
             Max (set (map (\<lambda>i. softmax (net (transforms env inputs)) ! i)
                   (matching (load_labels env (softmax (net (transforms env inputs)))) (label e)
                      (select_topk (np_argsort env) (softmax (net (transforms env inputs)))))))"
proof -
  from predict_returned [OF assms(1,2)] obtain fnd where
    run: "scan_topk (load_labels env (softmax (net (transforms env inputs))))
            (softmax (net (transforms env inputs)))
            (select_topk (np_argsort env) (softmax (net (transforms env inputs)))) [] = Inr fnd"
    and r: "r = build_result fnd"
    by blast
  from assms(3) obtain b v where bv: "(b, v) \<in> set fnd" and e: "e = \<lparr>label = b, score = v\<rparr>"
    by (auto simp: r set_build_result)
  from found_item [OF run bv] show ?thesis by (simp add: e)
qed

theorem bucket_score_is_max_witness:
  "model example_self = Some (\<lambda>x. x)
   \<and> predict example_env example_self [ln 2, 0, 0] =
       (Inr [\<lparr>label = ''Cat'', score = 1 / 2\<rparr>, \<lparr>label = ''Dog'', score = 1 / 4\<rparr>], example_self)
   \<and> \<lparr>label = ''Cat'', score = 1 / 2\<rparr>
       \<in> set [\<lparr>label = ''Cat'', score = 1 / 2\<rparr>, \<lparr>label = ''Dog'', score = 1 / 4\<rparr>]
   \<and> matching [''Siamese cat'', ''tabby'', ''Labrador retriever''] ''Cat'' [0, 2, 1] = [0, 1]
   \<and> softmax [ln 2, 0, 0] ! 0 = 1 / 2 \<and> softmax [ln 2, 0, 0] ! 1 = 1 / 4
   \<and> (1 / 2 :: real) = Max (set (map (\<lambda>i. softmax [ln 2, 0, 0] ! i) [0, 1]))
   \<and> (1 / 2 :: real) \<noteq> 1 / 2 + 1 / 4"
proof -
  have mem: "\<lparr>label = ''Cat'', score = 1 / 2\<rparr>
       \<in> set [\<lparr>label = ''Cat'', score = 1 / 2\<rparr>, \<lparr>label = ''Dog'', score = 1 / 4\<rparr>]"
    by simp
  from bucket_score_is_max [OF example_net example_predict mem]
  have "(1 / 2 :: real) = Max (set (map (\<lambda>i. softmax [ln 2, 0, 0] ! i) [0, 1]))"
    unfolding example_transforms example_labels example_softmax example_select
      example_matching_cat
    by simp
  moreover have "softmax [ln 2, 0, 0] ! 0 = 1 / 2" "softmax [ln 2, 0, 0] ! 1 = 1 / 4"
    by (simp_all add: example_softmax)
  ultimately show ?thesis using example_net example_predict example_matching_cat by simp
qed

text \<open>C3. When the import of the label list fails, every label is a placeholder
  \<open>class_<index>\<close>, no keyword of the table occurs in one, and a valid call returns
  the empty list.\<close>

theorem placeholders_give_empty:
  assumes "valid_call env self inputs logits" and "imagenet_labels env = None"
  shows "predict env self inputs = (Inr [], self)"
proof -
  let ?probs = "softmax logits"
  let ?topk = "select_topk (np_argsort env) ?probs"
  from predict_valid [OF assms(1)] obtain fnd where
    run: "scan_topk (load_labels env ?probs) ?probs ?topk [] = Inr fnd"
    and r: "predict env self inputs = (Inr (build_result fnd), self)" by blast
  have "\<not> bucket_matches ANIMAL_BUCKETS b (lower (load_labels env ?probs ! i))"
    if "i \<in> set ?topk" for i b
  proof -
    from that scan_topk_in_range [OF run] have "i < length ?probs" by blast
    then have "load_labels env ?probs ! i = placeholder i"
      using assms(2) by (simp add: load_labels_def fallback_labels_def)
    then show ?thesis by (simp add: placeholder_no_match)
  qed
  with run have "fnd = []" by (intro scan_no_match [OF run]) blast
  with r show ?thesis by (simp add: build_result_def)
qed

theorem placeholders_give_empty_witness:
  "valid_call unlabelled_env example_self [0, ln 2] [0, ln 2]
   \<and> imagenet_labels unlabelled_env = None
   \<and> predict unlabelled_env example_self [0, ln 2] = (Inr [], example_self)"
proof -
  have valid: "valid_call unlabelled_env example_self [0, ln 2] [0, ln 2]"
    by (rule example_valid [where ls = "[]"]) (simp_all add: unlabelled_env_def example_env_def)
  have none: "imagenet_labels unlabelled_env = None"
    by (simp add: unlabelled_env_def)
  from placeholders_give_empty [OF valid none] valid none show ?thesis by blast
qed



text \<open>C5. When no selected label contains a keyword of any bucket, a valid call returns
  the empty list, and no exception.\<close>

theorem no_match_gives_empty:
  assumes "valid_call env self inputs logits"
    and "\<forall>i \<in> set (select_topk (np_argsort env) (softmax logits)).
           \<forall>(b, kws) \<in> set ANIMAL_BUCKETS. \<forall>k \<in> set kws.
             \<not> sublist k (lower (load_labels env (softmax logits) ! i))"
  shows "predict env self inputs = (Inr [], self)"
proof -
  from predict_valid [OF assms(1)] obtain fnd where
    run: "scan_topk (load_labels env (softmax logits)) (softmax logits)
            (select_topk (np_argsort env) (softmax logits)) [] = Inr fnd"
    and r: "predict env self inputs = (Inr (build_result fnd), self)" by blast
  from assms(2) have "\<forall>i \<in> set (select_topk (np_argsort env) (softmax logits)).
      \<forall>b. \<not> bucket_matches ANIMAL_BUCKETS b (lower (load_labels env (softmax logits) ! i))"
    unfolding bucket_matches_def by blast
  with run have "fnd = []" by (rule scan_no_match)
  with r show ?thesis by (simp add: build_result_def)
qed

theorem no_match_gives_empty_witness:
  "valid_call plain_env example_self [0, ln 2] [0, ln 2]
   \<and> select_topk (np_argsort plain_env) (softmax [0, ln 2]) = [1, 0]
   \<and> \<not> (\<exists>(b, kws) \<in> set ANIMAL_BUCKETS. \<exists>k \<in> set kws.
           sublist k (lower (load_labels plain_env (softmax [0, ln 2]) ! 1)))
   \<and> \<not> (\<exists>(b, kws) \<in> set ANIMAL_BUCKETS. \<exists>k \<in> set kws.
           sublist k (lower (load_labels plain_env (softmax [0, ln 2]) ! 0)))
   \<and> predict plain_env example_self [0, ln 2] = (Inr [], example_self)"
proof -
  have valid: "valid_call plain_env example_self [0, ln 2] [0, ln 2]"
    by (rule example_valid [where ls = "[''Granny Smith'', ''volcano'']"])
       (simp_all add: plain_env_def example_env_def)
  have topk: "select_topk (np_argsort plain_env) (softmax [0, ln 2]) = [1, 0]"
    by (simp add: plain_env_def example_env_def example_softmax2 example_topk2)
  have labels: "load_labels plain_env ps = [''Granny Smith'', ''volcano'']" for ps
    by (simp add: load_labels_def plain_env_def)
  have none: "\<forall>i \<in> set (select_topk (np_argsort plain_env) (softmax [0, ln 2])).
      \<forall>(b, kws) \<in> set ANIMAL_BUCKETS. \<forall>k \<in> set kws.
        \<not> sublist k (lower (load_labels plain_env (softmax [0, ln 2]) ! i))"
    unfolding topk labels
    using no_keyword_in_granny_smith no_keyword_in_volcano by (simp add: example_lower2)
  have "\<not> (\<exists>(b, kws) \<in> set ANIMAL_BUCKETS. \<exists>k \<in> set kws.
           sublist k (lower (load_labels plain_env (softmax [0, ln 2]) ! 1)))"
       "\<not> (\<exists>(b, kws) \<in> set ANIMAL_BUCKETS. \<exists>k \<in> set kws.
           sublist k (lower (load_labels plain_env (softmax [0, ln 2]) ! 0)))"
    unfolding labels using no_keyword_in_granny_smith no_keyword_in_volcano
    by (auto simp: example_lower2)
  with no_match_gives_empty [OF valid none] valid topk show ?thesis by blast
qed

text \<open>C6. With at least 20 classes, the indices selected for matching are 20 distinct
  classes, no class outside them has a greater probability than one of them, and the
  buckets of the returned list are exactly those that a selected class matches.\<close>

theorem topk_selects_twenty:
  assumes "valid_call env self inputs logits" and "20 \<le> length logits"
  shows "length (select_topk (np_argsort env) (softmax logits)) = 20
         \<and> distinct (select_topk (np_argsort env) (softmax logits))
         \<and> set (select_topk (np_argsort env) (softmax logits)) \<subseteq> {0..<length logits}
         \<and> (\<forall>i \<in> set (select_topk (np_argsort env) (softmax logits)).
              \<forall>j < length logits. j \<notin> set (select_topk (np_argsort env) (softmax logits))
                \<longrightarrow> softmax logits ! j \<le> softmax logits ! i)
         \<and> (\<exists>r. predict env self inputs = (Inr r, self)
                \<and> set (map label r) =
                    {b. \<exists>i \<in> set (select_topk (np_argsort env) (softmax logits)).
                          bucket_matches ANIMAL_BUCKETS b
                            (lower (load_labels env (softmax logits) ! i))})"
proof -
  let ?probs = "softmax logits"
  let ?topk = "select_topk (np_argsort env) ?probs"
  have len: "length ?probs = length logits" by (rule length_softmax)
  from assms(1) have srt: "is_argsort ?probs (np_argsort env ?probs)"
    by (simp add: valid_call_def)
  have "length ?topk = 20"
    using select_topk_length [of ?probs "np_argsort env", OF srt] assms(2) by (simp add: len)
  moreover have "distinct ?topk"
    using select_topk_distinct [of ?probs "np_argsort env", OF srt] .
  moreover have "set ?topk \<subseteq> {0..<length logits}"
    using select_topk_set [of ?probs "np_argsort env", OF srt] by (simp add: len)
  moreover have "\<forall>i \<in> set ?topk. \<forall>j < length logits. j \<notin> set ?topk
                    \<longrightarrow> ?probs ! j \<le> ?probs ! i"
    using select_topk_dominates [of ?probs "np_argsort env", OF srt] by (simp add: len)
  moreover have "\<exists>r. predict env self inputs = (Inr r, self)
      \<and> set (map label r) =
          {b. \<exists>i \<in> set ?topk.
                bucket_matches ANIMAL_BUCKETS b (lower (load_labels env ?probs ! i))}"
  proof -
    from predict_valid [OF assms(1)] obtain fnd where
      run: "scan_topk (load_labels env ?probs) ?probs ?topk [] = Inr fnd"
      and r: "predict env self inputs = (Inr (build_result fnd), self)" by blast
    have "set (map label (build_result fnd)) = fst ` set fnd"
      by (simp add: labels_build_result)
    also have "\<dots> = {b. \<exists>i \<in> set ?topk.
        bucket_matches ANIMAL_BUCKETS b (lower (load_labels env ?probs ! i))}"
      unfolding found_keys [OF run] matching_nonempty ..
    finally show ?thesis using r by blast
  qed
  ultimately show ?thesis by blast
qed

theorem topk_selects_twenty_witness:
  "valid_call wide_env example_self wide_logits wide_logits
   \<and> 20 \<le> length wide_logits
   \<and> softmax wide_logits ! 20 < softmax wide_logits ! 19
   \<and> select_topk (np_argsort wide_env) (softmax wide_logits) =
        [0, 19, 18, 17, 16, 15, 14, 13, 12, 11, 10, 9, 8, 7, 6, 5, 4, 3, 2, 1]
   \<and> 20 \<notin> set (select_topk (np_argsort wide_env) (softmax wide_logits))
   \<and> bucket_matches ANIMAL_BUCKETS ''Cat''
        (lower (load_labels wide_env (softmax wide_logits) ! 20))
   \<and> length (select_topk (np_argsort wide_env) (softmax wide_logits)) = 20
   \<and> distinct (select_topk (np_argsort wide_env) (softmax wide_logits))
   \<and> set (select_topk (np_argsort wide_env) (softmax wide_logits)) \<subseteq> {0..<length wide_logits}
   \<and> list_all (\<lambda>i. \<forall>j < length wide_logits.
          j \<notin> set (select_topk (np_argsort wide_env) (softmax wide_logits))
            \<longrightarrow> softmax wide_logits ! j \<le> softmax wide_logits ! i)
        (select_topk (np_argsort wide_env) (softmax wide_logits))
   \<and> predict wide_env example_self wide_logits =
        (Inr [\<lparr>label = ''Dog'', score = 4 / 43\<rparr>], example_self)
   \<and> {b. \<exists>i \<in> set (select_topk (np_argsort wide_env) (softmax wide_logits)).
            bucket_matches ANIMAL_BUCKETS b
              (lower (load_labels wide_env (softmax wide_logits) ! i))} = {''Dog''}"
proof -
  have enough: "20 \<le> length wide_logits" by (simp add: wide_logits_def)
  note inst = topk_selects_twenty [OF wide_valid enough]
  have lower: "softmax wide_logits ! 20 < softmax wide_logits ! 19"
    by (simp add: wide_softmax wide_probs_def)
  have topk: "select_topk (np_argsort wide_env) (softmax wide_logits) =
      [0, 19, 18, 17, 16, 15, 14, 13, 12, 11, 10, 9, 8, 7, 6, 5, 4, 3, 2, 1]"
    by (simp add: wide_softmax wide_select)
  have out: "20 \<notin> set (select_topk (np_argsort wide_env) (softmax wide_logits))"
    unfolding topk by simp
  have cat: "bucket_matches ANIMAL_BUCKETS ''Cat''
      (lower (load_labels wide_env (softmax wide_logits) ! 20))"
    by (simp add: wide_labels_loaded wide_labels_def example_lower bucket_matches_def
          ANIMAL_BUCKETS_def sublist_code)
  from inst obtain r where
    "predict wide_env example_self wide_logits = (Inr r, example_self)"
    and "set (map label r) =
      {b. \<exists>i \<in> set (select_topk (np_argsort wide_env) (softmax wide_logits)).
            bucket_matches ANIMAL_BUCKETS b
              (lower (load_labels wide_env (softmax wide_logits) ! i))}"
    by blast
  with wide_predict have buckets:
    "{b. \<exists>i \<in> set (select_topk (np_argsort wide_env) (softmax wide_logits)).
            bucket_matches ANIMAL_BUCKETS b
              (lower (load_labels wide_env (softmax wide_logits) ! i))} = {''Dog''}"
    by simp
  from inst wide_valid enough lower topk out cat wide_predict buckets show ?thesis
    unfolding list_all_iff by blast
qed

text \<open>C8. In every list that predict returns, the bucket names under the key "label"
  are pairwise distinct.\<close>

theorem predict_labels_distinct:
  assumes "predict env self inputs = (Inr r, self')"
  shows "distinct (map label r)"
proof -
  from assms obtain net where net: "model self = Some net"
    by (cases "model self") (simp_all add: predict_def)
  from predict_returned [OF net assms] obtain fnd where
    run: "scan_topk (load_labels env (softmax (net (transforms env inputs))))
            (softmax (net (transforms env inputs)))
            (select_topk (np_argsort env) (softmax (net (transforms env inputs)))) [] = Inr fnd"
    and r: "r = build_result fnd" by blast
  from run have "distinct (map fst fnd)" by (rule scan_topk_distinct) simp
  then show ?thesis unfolding r by (rule distinct_build_result)
qed

theorem predict_labels_distinct_witness:
  "predict example_env example_self [ln 2, 0, 0] =
     (Inr [\<lparr>label = ''Cat'', score = 1 / 2\<rparr>, \<lparr>label = ''Dog'', score = 1 / 4\<rparr>], example_self)
   \<and> distinct (map label [\<lparr>label = ''Cat'', score = 1 / 2\<rparr>, \<lparr>label = ''Dog'', score = 1 / 4\<rparr>])"
  using predict_labels_distinct [OF example_predict] example_predict by blast

text \<open>C10. A returned list has at most one entry for a bucket of the table, so at most
  16 entries, and every score is the probability of a selected class whose lower-cased
  label contains a keyword of the entry's bucket.\<close>

theorem predict_entries_from_table:
  fixes env :: "('img, 'tensor) collaborators"
  assumes "model self = Some net" and "predict env self inputs = (Inr r, self')"
  shows "distinct (map label r) \<and> set (map label r) \<subseteq> set (map fst ANIMAL_BUCKETS)
         \<and> length r \<le> 16
         \<and> (\<forall>e \<in> set r.
              \<exists>i \<in> set (select_topk (np_argsort env) (softmax (net (transforms env inputs)))).
                 score e = softmax (net (transforms env inputs)) ! i
                 \<and> bucket_matches ANIMAL_BUCKETS (label e)
                     (lower (load_labels env (softmax (net (transforms env inputs))) ! i)))"
proof -
  let ?probs = "softmax (net (transforms env inputs))"
  let ?labels = "load_labels env ?probs"
  let ?topk = "select_topk (np_argsort env) ?probs"
  from predict_returned [OF assms] obtain fnd where
    run: "scan_topk ?labels ?probs ?topk [] = Inr fnd" and r: "r = build_result fnd"
    by blast
  have origin: "\<exists>i \<in> set ?topk. score e = ?probs ! i
                  \<and> bucket_matches ANIMAL_BUCKETS (label e) (lower (?labels ! i))"
    if "e \<in> set r" for e
  proof -
    from that obtain b v where bv: "(b, v) \<in> set fnd" and e: "e = \<lparr>label = b, score = v\<rparr>"
      by (auto simp: r set_build_result)
    from found_item_origin [OF run bv] show ?thesis by (auto simp: e)
  qed
  from run have "distinct (map fst fnd)" by (rule scan_topk_distinct) simp
  then have "distinct (map label r)" unfolding r by (rule distinct_build_result)
  moreover have "set (map label r) \<subseteq> set (map fst ANIMAL_BUCKETS)"
  proof
    fix b assume "b \<in> set (map label r)"
    then obtain e where "e \<in> set r" and "label e = b" by auto
    with origin show "b \<in> set (map fst ANIMAL_BUCKETS)"
      by (auto dest: bucket_matches_key)
  qed
  moreover have "length r \<le> 16"
    using found_length [OF run] by (simp add: r length_build_result)
  ultimately show ?thesis using origin by blast
qed

theorem predict_entries_from_table_witness:
  "model example_self = Some (\<lambda>x. x)
   \<and> predict example_env example_self [ln 2, 0, 0] =
       (Inr [\<lparr>label = ''Cat'', score = 1 / 2\<rparr>, \<lparr>label = ''Dog'', score = 1 / 4\<rparr>], example_self)
   \<and> distinct (map label [\<lparr>label = ''Cat'', score = 1 / 2\<rparr>, \<lparr>label = ''Dog'', score = 1 / 4\<rparr>])
   \<and> length [\<lparr>label = ''Cat'', score = 1 / 2\<rparr>, \<lparr>label = ''Dog'', score = 1 / 4\<rparr>] \<le> 16
   \<and> (\<exists>i \<in> set (select_topk (np_argsort example_env) (softmax [ln 2, 0, 0])).
         1 / 2 = softmax [ln 2, 0, 0] ! i
         \<and> bucket_matches ANIMAL_BUCKETS ''Cat''
             (lower (load_labels example_env (softmax [ln 2, 0, 0]) ! i)))"
proof -
  note inst = predict_entries_from_table [OF example_net example_predict]
  from inst have "\<forall>e \<in> set [\<lparr>label = ''Cat'', score = 1 / 2\<rparr>, \<lparr>label = ''Dog'', score = 1 / 4\<rparr>].
      \<exists>i \<in> set (select_topk (np_argsort example_env) (softmax (transforms example_env [ln 2, 0, 0]))).
         score e = softmax (transforms example_env [ln 2, 0, 0]) ! i
         \<and> bucket_matches ANIMAL_BUCKETS (label e)
             (lower (load_labels example_env (softmax (transforms example_env [ln 2, 0, 0])) ! i))"
    by blast
  then have "\<exists>i \<in> set (select_topk (np_argsort example_env) (softmax [ln 2, 0, 0])).
         1 / 2 = softmax [ln 2, 0, 0] ! i
         \<and> bucket_matches ANIMAL_BUCKETS ''Cat''
             (lower (load_labels example_env (softmax [ln 2, 0, 0]) ! i))"
    unfolding example_transforms by simp
  with inst example_net example_predict show ?thesis by blast
qed

end
